theory Spec2Isabelle
  imports Main "HOL-Library.Word"
begin

unbundle bit_operations_syntax

section \<open>Parsed documents and the selection library\<close>

text \<open>
  The program reads every page through the goquery library: \<open>goquery.NewDocument\<close>
  fetches and parses a page, \<open>Find\<close> selects the descendants matching a CSS selector,
  \<open>Each\<close> runs a callback on the matches in document order, \<open>Parent\<close> moves to the
  parent element and \<open>Attr\<close> reads an attribute of the first element of a selection.
  The library is not part of the repository; the definitions of this section give the
  part of its documented behaviour that the program uses.
\<close>

datatype node =
    Element (tag: string) (attrs: "(string \<times> string) list") (kids: "node list")
  | TextNode string

text \<open>
  An element of a selection is a node of the tree together with its ancestors, the
  parent first (the library's node carries a parent pointer).
\<close>

type_synonym located = "node list \<times> node"
type_synonym selection = "located list"

text \<open>A compound selector: an optional tag name, an optional id, an optional class.\<close>

datatype simple = Simple (stag: "string option") (sid: "string option") (sclass: "string option")

text \<open>A selector of the program: compound selectors joined by the descendant combinator.\<close>

type_synonym selector = "simple list"

definition isSpace :: "char \<Rightarrow> bool" where
  "isSpace c = (c = CHR '' '' \<or> c = CHR 0x09 \<or> c = CHR 0x0A \<or> c = CHR 0x0C \<or> c = CHR 0x0D)"

text \<open>The words of a \<open>class\<close> attribute, \<open>w\<close> being the word read so far.\<close>

fun classWordsFrom :: "string \<Rightarrow> string \<Rightarrow> string list" where
  "classWordsFrom w [] = (if w = [] then [] else [w])"
| "classWordsFrom w (c # cs) =
     (if isSpace c then (if w = [] then classWordsFrom [] cs else w # classWordsFrom [] cs)
      else classWordsFrom (w @ [c]) cs)"

definition classWords :: "string \<Rightarrow> string list" where
  "classWords s = classWordsFrom [] s"

fun optEq :: "string option \<Rightarrow> string option \<Rightarrow> bool" where
  "optEq None _ = True"
| "optEq (Some w) None = False"
| "optEq (Some w) (Some v) = (w = v)"

fun optClass :: "string option \<Rightarrow> string option \<Rightarrow> bool" where
  "optClass None _ = True"
| "optClass (Some w) None = False"
| "optClass (Some w) (Some v) = (w \<in> set (classWords v))"

fun matchSimple :: "simple \<Rightarrow> node \<Rightarrow> bool" where
  "matchSimple s (TextNode t) = False"
| "matchSimple s (Element t as ks) =
     (optEq (stag s) (Some t) \<and> optEq (sid s) (map_of as ''id'')
      \<and> optClass (sclass s) (map_of as ''class''))"

text \<open>
  The descendant combinator: the ancestors, read from the root downwards, contain
  elements matching the leading compound selectors in their order.
\<close>

fun chainOk :: "selector \<Rightarrow> node list \<Rightarrow> bool" where
  "chainOk [] ns = True"
| "chainOk (c # cs) [] = False"
| "chainOk (c # cs) (n # ns) = (if matchSimple c n then chainOk cs ns else chainOk (c # cs) ns)"

definition matchSel :: "selector \<Rightarrow> located \<Rightarrow> bool" where
  "matchSel sel ln =
     (case rev sel of
        [] \<Rightarrow> False
      | c # cs \<Rightarrow> matchSimple c (snd ln) \<and> chainOk (rev cs) (rev (fst ln)))"

text \<open>The proper descendants of a node in document order, each with its ancestors.\<close>

fun descend :: "node list \<Rightarrow> node \<Rightarrow> located list"
  and descendKids :: "node list \<Rightarrow> node list \<Rightarrow> located list" where
  "descend anc (TextNode t) = []"
| "descend anc (Element t as ks) = descendKids (Element t as ks # anc) ks"
| "descendKids anc [] = []"
| "descendKids anc (k # ks) = (anc, k) # descend anc k @ descendKids anc ks"

text \<open>
  \<open>Find\<close>. The program calls it on the document and on the parent of one element, so
  on selections of one node, where the library's removal of duplicate matches changes
  nothing.
\<close>

definition Find :: "selection \<Rightarrow> selector \<Rightarrow> selection" where
  "Find sel q = concat (map (\<lambda>ln. filter (matchSel q) (descend (fst ln) (snd ln))) sel)"

fun parentOf :: "located \<Rightarrow> selection" where
  "parentOf ([], n) = []"
| "parentOf (p # anc, n) = [(anc, p)]"

definition Parent :: "selection \<Rightarrow> selection" where
  "Parent sel = concat (map parentOf sel)"

text \<open>
  \<open>Attr\<close> returns the attribute of the first element of the selection and whether it
  exists; the value is the empty string when it does not.
\<close>

fun Attr :: "selection \<Rightarrow> string \<Rightarrow> string \<times> bool" where
  "Attr [] name = ('''', False)"
| "Attr ((anc, TextNode t) # rest) name = ('''', False)"
| "Attr ((anc, Element t as ks) # rest) name =
     (case map_of as name of None \<Rightarrow> ('''', False) | Some v \<Rightarrow> (v, True))"

text \<open>
  The document as a selection: its root, which has no ancestors. \<open>Find\<close> looks at
  the nodes below the root.
\<close>

definition document :: "node \<Rightarrow> selection" where
  "document d = [([], d)]"

text \<open>The selectors the program uses.\<close>

definition sel_item_links :: selector where
  \<comment> \<open>\<open>div.imagelog p a\<close>\<close>
  "sel_item_links = [Simple (Some ''div'') None (Some ''imagelog''),
                     Simple (Some ''p'') None None, Simple (Some ''a'') None None]"

definition sel_pager :: selector where
  \<comment> \<open>\<open>div.pager a.navi\<close>\<close>
  "sel_pager = [Simple (Some ''div'') None (Some ''pager''),
                Simple (Some ''a'') None (Some ''navi'')]"

definition sel_zoom :: selector where
  \<comment> \<open>\<open>#zoom ul li a\<close>\<close>
  "sel_zoom = [Simple None (Some ''zoom'') None, Simple (Some ''ul'') None None,
               Simple (Some ''li'') None None, Simple (Some ''a'') None None]"

definition sel_div_table :: selector where
  \<comment> \<open>\<open>div table\<close>\<close>
  "sel_div_table = [Simple (Some ''div'') None None, Simple (Some ''table'') None None]"

definition sel_img :: selector where
  \<comment> \<open>\<open>img\<close>\<close>
  "sel_img = [Simple (Some ''img'') None None]"

text \<open>\<open>strings.HasPrefix\<close> and \<open>strings.Contains\<close>.\<close>

definition HasPrefix :: "string \<Rightarrow> string \<Rightarrow> bool" where
  "HasPrefix s p = (take (length p) s = p)"

fun Contains :: "string \<Rightarrow> string \<Rightarrow> bool" where
  "Contains [] sub = (sub = [])"
| "Contains (c # cs) sub = (HasPrefix (c # cs) sub \<or> Contains cs sub)"

section \<open>Configuration, environment and effects\<close>

text \<open>
  The definitions follow the last revision of \<open>main.go\<close> in the source file (the one
  with the \<open>dry-run\<close> flag), which is the program the specification describes.
\<close>

record conf =
  directory :: string
  url :: string
  verbose :: bool
  dryrun :: bool
  size_conf :: int
  parallel :: int
  defaultDomain :: string

text \<open>
  What the program asks of the network, the file system and the standard library. An
  error is \<open>Inl\<close> of its message. \<open>destinationOf dir u\<close> stands for
  \<open>path.Join(dir, path.Base(u))\<close>.
\<close>

record env =
  newDocument :: "string \<Rightarrow> string + node"
  osCreate :: "string \<Rightarrow> string + unit"
  httpGet :: "string \<Rightarrow> string + string"
  ioCopy :: "string \<Rightarrow> string \<Rightarrow> string + unit"
  fileSync :: "string \<Rightarrow> string + unit"
  mkdirAll :: "string \<Rightarrow> 32 word \<Rightarrow> string + unit"
  destinationOf :: "string \<Rightarrow> string \<Rightarrow> string"

text \<open>The effects of a run, in the order a goroutine performs them.\<close>

datatype event =
    E_Log string
  | E_Stdout string
  | E_MkdirAll string "32 word"
  | E_Create string
  | E_Get string
  | E_Copy string
  | E_Sync string
  | E_Doc string
  | E_Send string
  | E_Close
  | E_Acquire
  | E_Release
  | E_Spawn string

text \<open>
  A call returns to its caller, or ends the process: \<open>log.Fatal\<close> prints its message
  and calls \<open>os.Exit(1)\<close>, which runs no deferred call.
\<close>

datatype 'a outcome = Returns 'a | Exits nat

section \<open>The downloader and the asset resolver\<close>

definition downloadImage :: "env \<Rightarrow> conf \<Rightarrow> string \<Rightarrow> event list \<times> unit outcome" where
  "downloadImage e cfg u =
     (let destination = destinationOf e (directory cfg) u;
          ev0 = (if verbose cfg then [E_Log (''Saving into '' @ destination)] else [])
                @ [E_Create destination]
      in case osCreate e destination of
           Inl err \<Rightarrow> (ev0 @ [E_Log err], Exits 1)
         | Inr _ \<Rightarrow>
             (case httpGet e u of
                Inl err \<Rightarrow> (ev0 @ [E_Get u, E_Log (''Error in HTTP GET: '' @ err)], Returns ())
              | Inr body \<Rightarrow>
                  (ev0 @ [E_Get u]
                   @ (if verbose cfg then [E_Log (''Downloading '' @ u)] else [])
                   @ [E_Copy destination]
                   @ (case ioCopy e destination body of
                        Inl err \<Rightarrow> [E_Log (''Error in image download: '' @ err)]
                      | Inr _ \<Rightarrow> [])
                   @ [E_Sync destination]
                   @ (case fileSync e destination of
                        Inl err \<Rightarrow> [E_Log (''Error in image save: '' @ err)]
                      | Inr _ \<Rightarrow> []),
                   Returns ())))"

text \<open>
  The callback of \<open>getActualImageUrl\<close>, run on every match of \<open>div table\<close>: it
  overwrites the result \<open>image\<close> (here \<open>img\<close>) when the first \<open>img\<close> below the parent of the table has a
  \<open>src\<close>. (\<open>Find\<close> never returns \<open>nil\<close>, so the test \<open>el == nil\<close> is never true.)
\<close>

definition imageOfTable :: "located \<Rightarrow> string \<Rightarrow> string" where
  "imageOfTable s img =
     (case Attr (Find (Parent [s]) sel_img) ''src'' of (val, ok) \<Rightarrow> if ok then val else img)"

definition getActualImageUrl :: "env \<Rightarrow> string \<Rightarrow> event list \<times> string outcome" where
  "getActualImageUrl e u =
     (case newDocument e u of
        Inl err \<Rightarrow>
          ([E_Doc u, E_Log (''Error opening document for single image: '' @ err)], Returns [])
      | Inr doc \<Rightarrow>
          ([E_Doc u], Returns (fold imageOfTable (Find (document doc) sel_div_table) [])))"

section \<open>The pagination walker\<close>

text \<open>
  \<open>extractImageUrls\<close>: the callback sends the \<open>href\<close> of every item link on the
  stream; \<open>log.Fatal\<close> in the callback ends the process before the later links.
\<close>

fun extractImageUrls_each :: "conf \<Rightarrow> selection \<Rightarrow> event list \<times> unit outcome" where
  "extractImageUrls_each cfg [] = ([], Returns ())"
| "extractImageUrls_each cfg (s # ss) =
     (case Attr [s] ''href'' of
        (val, ok) \<Rightarrow>
          if \<not> ok then
            (if verbose cfg then ([E_Log ''Href not found''], Exits 1)
             else extractImageUrls_each cfg ss)
          else (case extractImageUrls_each cfg ss of (ev, out) \<Rightarrow> (E_Send val # ev, out)))"

definition extractImageUrls :: "conf \<Rightarrow> node \<Rightarrow> event list \<times> unit outcome" where
  "extractImageUrls cfg doc = extractImageUrls_each cfg (Find (document doc) sel_item_links)"

text \<open>
  \<open>extractNextUrl\<close>: the state of the callback is the log written so far and
  \<open>nextUrl\<close>. After \<open>log.Print("Invalid pager link")\<close> the callback goes on to the
  assignment, with \<open>pageNextUrl\<close> the empty string.
\<close>

definition nextOfPager :: "conf \<Rightarrow> located \<Rightarrow> event list \<times> string \<Rightarrow> event list \<times> string" where
  "nextOfPager cfg s st =
     (case Attr [s] ''id'' of
        (val, ok) \<Rightarrow>
          if \<not> ok then st
          else if \<not> HasPrefix val ''next_pager_'' then st
          else (case Attr [s] ''href'' of
                  (pageNextUrl, ok') \<Rightarrow>
                    (fst st @ (if \<not> ok' then [E_Log ''Invalid pager link''] else []),
                     defaultDomain cfg @ pageNextUrl)))"

definition extractNextUrl :: "conf \<Rightarrow> node \<Rightarrow> event list \<times> string" where
  "extractNextUrl cfg doc = fold (nextOfPager cfg) (Find (document doc) sel_pager) ([], [])"

text \<open>
  One turn of the loop of \<open>fetchAllImageUrls\<close> at a non-empty \<open>url\<close>: the effects, and
  how the loop goes on.
\<close>

datatype turn = Abort nat | Break | Next string

definition walkPage :: "env \<Rightarrow> conf \<Rightarrow> string \<Rightarrow> event list \<times> turn" where
  "walkPage e cfg u =
     (let ev0 = (if verbose cfg then [E_Log (''Fetching links from '' @ u)] else []) @ [E_Doc u]
      in case newDocument e u of
           Inl err \<Rightarrow> (ev0 @ [E_Log (''Error opening document with single image: '' @ err)], Abort 1)
         | Inr doc \<Rightarrow>
             (case extractImageUrls cfg doc of
                (ev1, Exits c) \<Rightarrow> (ev0 @ ev1, Abort c)
              | (ev1, Returns _) \<Rightarrow>
                  (case extractNextUrl cfg doc of
                     (ev2, nextUrl) \<Rightarrow>
                       (ev0 @ ev1 @ ev2, if u = nextUrl then Break else Next nextUrl))))"

text \<open>
  The loop \<open>for url != ""\<close>, with the effects so far in \<open>acc\<close>. It may run forever (a
  site can have pages without end): the value is then \<open>None\<close>.
\<close>

partial_function (option) walkLoop ::
  "env \<Rightarrow> conf \<Rightarrow> string \<Rightarrow> event list \<Rightarrow> (event list \<times> unit outcome) option" where
  "walkLoop e cfg u acc =
     (if u = [] then Some (acc, Returns ())
      else (case walkPage e cfg u of
              (ev, Abort c) \<Rightarrow> Some (acc @ ev, Exits c)
            | (ev, Break) \<Rightarrow> Some (acc @ ev, Returns ())
            | (ev, Next nextUrl) \<Rightarrow> walkLoop e cfg nextUrl (acc @ ev)))"

declare walkLoop.simps [code]

text \<open>
  \<open>fetchAllImageUrls\<close>: the deferred \<open>close(urls)\<close> runs when the loop is left and the
  function returns, not when the process exits in \<open>log.Fatal\<close>.
\<close>

definition fetchAllImageUrls ::
  "env \<Rightarrow> conf \<Rightarrow> string \<Rightarrow> (event list \<times> unit outcome) option" where
  "fetchAllImageUrls e cfg u =
     (case walkLoop e cfg u [] of
        None \<Rightarrow> None
      | Some (ev, Returns _) \<Rightarrow> Some (ev @ [E_Close], Returns ())
      | Some (ev, Exits c) \<Rightarrow> Some (ev, Exits c))"

text \<open>The item URLs a goroutine sent on the stream, in order.\<close>

fun sent :: "event list \<Rightarrow> string list" where
  "sent [] = []"
| "sent (E_Send v # ev) = v # sent ev"
| "sent (x # ev) = sent ev"

section \<open>The goroutines of a run\<close>

text \<open>
  \<open>startDownloads\<close> starts \<open>fetchAllImageUrls\<close> and a sink (\<open>printImages\<close> or
  \<open>downloadImages\<close>) as goroutines; \<open>downloadImages\<close> starts one goroutine
  \<open>downloadActualImage\<close> for every link it keeps. The state of the process is the
  place every goroutine has reached, the item URLs sent on the stream and not yet
  received, the number of tokens in the channel \<open>semaphore\<close>, the effects so far, and
  the exit status once the process has ended.
\<close>

datatype walker = W_At string | W_Exit nat | W_Done

datatype sink = S_Recv | S_Each selection | S_Spawn string selection | S_Done

datatype task = T_Resolve string | T_Download string | T_Release | T_Done

record proc =
  walker :: walker
  queue :: "string list"
  closed :: bool
  sink :: sink
  sem :: nat
  tasks :: "task list"
  trace :: "event list"
  status :: "nat option"

text \<open>
  \<open>fetchAllImageUrls\<close> as a goroutine, one turn of its loop a step. The stream is an
  unbuffered channel: a send returns when the sink has received the item. The model
  keeps the items sent and not yet received in \<open>queue\<close>, in their order, and lets the
  walker finish its turn before the sink takes them: the sink receives the same items in
  the same order, and no other goroutine depends on how far the walker is. The items
  sent before a \<open>log.Fatal\<close> have been received when the process ends, so the exit is a
  step of its own (\<open>W_Exit\<close>), which the sink may precede.
\<close>

fun fetchAllImageUrls_step :: "env \<Rightarrow> conf \<Rightarrow> proc \<Rightarrow> walker \<Rightarrow> proc" where
  "fetchAllImageUrls_step e cfg p (W_At u) =
     (if u = [] then p\<lparr>walker := W_Done, closed := True, trace := trace p @ [E_Close]\<rparr>
      else (case walkPage e cfg u of
              (ev, Abort c) \<Rightarrow>
                p\<lparr>walker := W_Exit c, queue := queue p @ sent ev, trace := trace p @ ev\<rparr>
            | (ev, Break) \<Rightarrow>
                p\<lparr>walker := W_Done, queue := queue p @ sent ev, closed := True,
                  trace := trace p @ ev @ [E_Close]\<rparr>
            | (ev, Next nextUrl) \<Rightarrow>
                p\<lparr>walker := W_At nextUrl, queue := queue p @ sent ev, trace := trace p @ ev\<rparr>))"
| "fetchAllImageUrls_step e cfg p (W_Exit c) = p\<lparr>status := Some c\<rparr>"
| "fetchAllImageUrls_step e cfg p W_Done = p"

text \<open>\<open>printImages\<close>: one line for every URL received, until the stream is closed.\<close>

fun printImages_step :: "proc \<Rightarrow> sink \<Rightarrow> proc" where
  "printImages_step p S_Recv =
     (case queue p of
        [] \<Rightarrow> if closed p then p\<lparr>sink := S_Done\<rparr> else p
      | u # us \<Rightarrow> p\<lparr>queue := us, trace := trace p @ [E_Stdout (u @ [CHR 0x0A])]\<rparr>)"
| "printImages_step p s = p"

text \<open>
  \<open>downloadImages\<close>: \<open>S_Recv\<close> is the head of the loop over the stream, \<open>S_Each ss\<close> the
  callback about to run on the links \<open>ss\<close> of the page, \<open>S_Spawn val ss\<close> the place after
  the send on \<open>semaphore\<close>, before \<open>go downloadActualImage\<close>. A send on a full channel
  blocks: the step changes nothing.
\<close>

fun downloadImages_step :: "env \<Rightarrow> conf \<Rightarrow> proc \<Rightarrow> sink \<Rightarrow> proc" where
  "downloadImages_step e cfg p S_Recv =
     (case queue p of
        [] \<Rightarrow> if closed p then p\<lparr>sink := S_Done\<rparr> else p
      | u # us \<Rightarrow>
          (case newDocument e u of
             Inl err \<Rightarrow>
               p\<lparr>queue := us,
                 trace := trace p @ [E_Doc u, E_Log (''Error opening document with all images: '' @ err)]\<rparr>
           | Inr doc \<Rightarrow>
               p\<lparr>queue := us, sink := S_Each (Find (document doc) sel_zoom),
                 trace := trace p @ [E_Doc u]\<rparr>))"
| "downloadImages_step e cfg p (S_Each []) = p\<lparr>sink := S_Recv\<rparr>"
| "downloadImages_step e cfg p (S_Each (s # ss)) =
     (case Attr [s] ''href'' of
        (val, ok) \<Rightarrow>
          if \<not> ok then
            p\<lparr>sink := S_Each ss,
              trace := trace p @ (if verbose cfg then [E_Log ''Href not found, skipping''] else [])\<rparr>
          else if \<not> Contains val ''size=o'' then p\<lparr>sink := S_Each ss\<rparr>
          else if parallel cfg > 0 then
            (if int (sem p) < parallel cfg
             then p\<lparr>sink := S_Spawn val ss, sem := Suc (sem p), trace := trace p @ [E_Acquire]\<rparr>
             else p)
          else p\<lparr>sink := S_Spawn val ss\<rparr>)"
| "downloadImages_step e cfg p (S_Spawn val ss) =
     p\<lparr>sink := S_Each ss, tasks := tasks p @ [T_Resolve (defaultDomain cfg @ val)],
       trace := trace p @ [E_Spawn (defaultDomain cfg @ val)]\<rparr>"
| "downloadImages_step e cfg p S_Done = p"

text \<open>
  \<open>downloadActualImage\<close>, the goroutine at index \<open>i\<close>: it resolves the asset, downloads
  it when it is not empty, and receives from \<open>semaphore\<close> when \<open>config.parallel > 0\<close>.
\<close>

fun downloadActualImage_step :: "env \<Rightarrow> conf \<Rightarrow> proc \<Rightarrow> nat \<Rightarrow> task \<Rightarrow> proc" where
  "downloadActualImage_step e cfg p i (T_Resolve u) =
     (case getActualImageUrl e u of
        (ev, Returns imageUrl) \<Rightarrow>
          p\<lparr>tasks := (tasks p)[i := (if imageUrl \<noteq> [] then T_Download imageUrl else T_Release)],
            trace := trace p @ ev\<rparr>
      | (ev, Exits c) \<Rightarrow> p\<lparr>trace := trace p @ ev, status := Some c\<rparr>)"
| "downloadActualImage_step e cfg p i (T_Download imageUrl) =
     (case downloadImage e cfg imageUrl of
        (ev, Returns _) \<Rightarrow> p\<lparr>tasks := (tasks p)[i := T_Release], trace := trace p @ ev\<rparr>
      | (ev, Exits c) \<Rightarrow> p\<lparr>trace := trace p @ ev, status := Some c\<rparr>)"
| "downloadActualImage_step e cfg p i T_Release =
     (if parallel cfg > 0 then
        (case sem p of
           0 \<Rightarrow> p
         | Suc n \<Rightarrow> p\<lparr>sem := n, tasks := (tasks p)[i := T_Done], trace := trace p @ [E_Release]\<rparr>)
      else p\<lparr>tasks := (tasks p)[i := T_Done]\<rparr>)"
| "downloadActualImage_step e cfg p i T_Done = p"

text \<open>
  The main goroutine waits in \<open>wg.Wait()\<close> until the walker, the sink and every
  download goroutine have called \<open>wg.Done()\<close>, and then calls \<open>os.Exit(0)\<close>.
\<close>

definition allDone :: "proc \<Rightarrow> bool" where
  "allDone p = (walker p = W_Done \<and> sink p = S_Done \<and> list_all (\<lambda>t. t = T_Done) (tasks p))"

text \<open>
  One step of the process: the scheduler picks the main goroutine (\<open>0\<close>), the walker
  (\<open>1\<close>), the sink (\<open>2\<close>) or a download goroutine (\<open>3 + i\<close>). A goroutine that is
  blocked or has returned leaves the state as it is; nothing runs after the exit.
\<close>

fun pick :: "env \<Rightarrow> conf \<Rightarrow> nat \<Rightarrow> proc \<Rightarrow> proc" where
  "pick e cfg 0 p = (if allDone p then p\<lparr>status := Some 0\<rparr> else p)"
| "pick e cfg (Suc 0) p = fetchAllImageUrls_step e cfg p (walker p)"
| "pick e cfg (Suc (Suc 0)) p =
     (if dryrun cfg then printImages_step p (sink p) else downloadImages_step e cfg p (sink p))"
| "pick e cfg (Suc (Suc (Suc i))) p =
     (if i < length (tasks p) then downloadActualImage_step e cfg p i (tasks p ! i) else p)"

definition step :: "env \<Rightarrow> conf \<Rightarrow> nat \<Rightarrow> proc \<Rightarrow> proc" where
  "step e cfg k p = (if status p \<noteq> None then p else pick e cfg k p)"

text \<open>An execution: the steps of a schedule, from the left.\<close>

definition exec :: "env \<Rightarrow> conf \<Rightarrow> nat list \<Rightarrow> proc \<Rightarrow> proc" where
  "exec e cfg sched p = fold (step e cfg) sched p"

section \<open>The main program\<close>

definition initDefaults :: "conf \<Rightarrow> conf" where
  "initDefaults cfg = cfg\<lparr>defaultDomain := ''http://nagi.ee''\<rparr>"

text \<open>The mode \<open>0740\<close> of the source is octal: \<open>7 * 64 + 4 * 8 = 480\<close>.\<close>

definition dirMode :: "32 word" where
  "dirMode = 480"

definition createDestinationDir :: "env \<Rightarrow> conf \<Rightarrow> event list \<times> unit outcome" where
  "createDestinationDir e cfg =
     (case mkdirAll e (directory cfg) dirMode of
        Inl err \<Rightarrow> ([E_MkdirAll (directory cfg) dirMode, E_Log err], Exits 1)
      | Inr _ \<Rightarrow> ([E_MkdirAll (directory cfg) dirMode], Returns ()))"

text \<open>
  \<open>initParallelSemaphore\<close> makes the channel, empty, of capacity \<open>config.parallel\<close> when
  that is positive; \<open>startDownloads\<close> makes the stream and starts the goroutines.
\<close>

definition startDownloads :: "conf \<Rightarrow> event list \<Rightarrow> proc" where
  "startDownloads cfg ev =
     \<lparr>walker = W_At (url cfg), queue = [], closed = False, sink = S_Recv, sem = 0,
      tasks = [], trace = ev, status = None\<rparr>"

text \<open>
  \<open>main\<close>, for the flags and arguments \<open>args\<close> as \<open>parseArgs\<close> stores them, under a
  schedule of the goroutines.
\<close>

definition main :: "env \<Rightarrow> conf \<Rightarrow> nat list \<Rightarrow> proc" where
  "main e args sched =
     (let cfg = initDefaults args in
      if dryrun cfg then exec e cfg sched (startDownloads cfg [])
      else (case createDestinationDir e cfg of
              (ev, Exits c) \<Rightarrow> (startDownloads cfg ev)\<lparr>status := Some c\<rparr>
            | (ev, Returns _) \<Rightarrow> exec e cfg sched (startDownloads cfg ev)))"

section \<open>Example pages\<close>

text \<open>
  A small site, for evaluating the program: a listing of two pages, an item page with
  one link to a full-size view, and two detail pages.
\<close>

definition ex_listing :: node where
  "ex_listing =
     Element ''html'' []
       [Element ''div'' [(''class'', ''imagelog'')]
          [Element ''p'' [] [Element ''a'' [(''href'', ''http://nagi.ee/item1'')] []]],
        Element ''div'' [(''class'', ''pager'')]
          [Element ''a'' [(''class'', ''navi''), (''id'', ''next_pager_2''), (''href'', ''/l2'')] []]]"

definition ex_listing2 :: node where
  "ex_listing2 =
     Element ''html'' []
       [Element ''div'' [(''class'', ''imagelog'')]
          [Element ''p'' [] [Element ''a'' [(''href'', ''http://nagi.ee/item2'')] []]]]"

definition ex_item :: node where
  "ex_item =
     Element ''html'' []
       [Element ''div'' [(''id'', ''zoom'')]
          [Element ''ul'' [] [Element ''li'' [] [Element ''a'' [(''href'', ''/big?size=o'')] []]]]]"

definition ex_item2 :: node where
  "ex_item2 =
     Element ''html'' []
       [Element ''div'' [(''id'', ''zoom'')]
          [Element ''ul'' [] [Element ''li'' [] [Element ''a'' [(''href'', ''/none?size=o'')] []]]]]"

text \<open>A detail page with two tables, each beside an image.\<close>

definition ex_detail :: node where
  "ex_detail =
     Element ''html'' []
       [Element ''div'' [] [Element ''table'' [] [], Element ''img'' [(''src'', ''http://nagi.ee/f/a.jpg'')] []],
        Element ''div'' [] [Element ''table'' [] [], Element ''img'' [(''src'', ''http://nagi.ee/f/b.jpg'')] []]]"

text \<open>A detail page without a table.\<close>

definition ex_detail_none :: node where
  "ex_detail_none = Element ''html'' [] [Element ''div'' [] [TextNode ''gone'']]"

text \<open>A listing whose second item link has no \<open>href\<close>.\<close>

definition ex_listing_nohref :: node where
  "ex_listing_nohref =
     Element ''html'' []
       [Element ''div'' [(''class'', ''imagelog'')]
          [Element ''p'' []
             [Element ''a'' [(''href'', ''http://nagi.ee/item1'')] [],
              Element ''a'' [(''name'', ''top'')] [],
              Element ''a'' [(''href'', ''http://nagi.ee/item2'')] []]]]"

text \<open>A listing whose next-page link has no \<open>href\<close>.\<close>

definition ex_listing_nopager :: node where
  "ex_listing_nopager =
     Element ''html'' []
       [Element ''div'' [(''class'', ''imagelog'')]
          [Element ''p'' [] [Element ''a'' [(''href'', ''http://nagi.ee/item1'')] []]],
        Element ''div'' [(''class'', ''pager'')]
          [Element ''a'' [(''class'', ''navi''), (''id'', ''next_pager_2'')] []]]"

text \<open>A listing whose next-page link points to the listing itself.\<close>

definition ex_listing_self :: node where
  "ex_listing_self =
     Element ''html'' []
       [Element ''div'' [(''class'', ''imagelog'')]
          [Element ''p'' [] [Element ''a'' [(''href'', ''http://nagi.ee/item1'')] []]],
        Element ''div'' [(''class'', ''pager'')]
          [Element ''a'' [(''class'', ''navi''), (''id'', ''next_pager_1''), (''href'', ''/loop'')] []]]"

definition ex_site :: "string \<Rightarrow> string + node" where
  "ex_site u =
     (if u = ''http://nagi.ee/l'' then Inr ex_listing
      else if u = ''http://nagi.ee/l2'' then Inr ex_listing2
      else if u = ''http://nagi.ee/item1'' then Inr ex_item
      else if u = ''http://nagi.ee/item2'' then Inr ex_item2
      else if u = ''http://nagi.ee/big?size=o'' then Inr ex_detail
      else if u = ''http://nagi.ee/none?size=o'' then Inr ex_detail_none
      else if u = ''http://nagi.ee/broken'' then Inr ex_listing_nohref
      else if u = ''http://nagi.ee/last'' then Inr ex_listing_nopager
      else if u = ''http://nagi.ee/loop'' then Inr ex_listing_self
      else Inl ''404 Not Found'')"

definition ex_env :: env where
  "ex_env =
     \<lparr>newDocument = ex_site,
      osCreate = (\<lambda>d. Inr ()),
      httpGet = (\<lambda>u. Inr ''JFIF''),
      ioCopy = (\<lambda>d b. Inr ()),
      fileSync = (\<lambda>d. Inr ()),
      mkdirAll = (\<lambda>d m. Inr ()),
      destinationOf = (\<lambda>d u. d @ ''/'' @ drop 17 u)\<rparr>"

text \<open>The same site on a file system that refuses to create files.\<close>

definition ex_env_readonly :: env where
  "ex_env_readonly = ex_env\<lparr>osCreate := (\<lambda>d. Inl ''permission denied'')\<rparr>"

definition ex_args :: conf where
  "ex_args =
     \<lparr>directory = ''out'', url = ''http://nagi.ee/l'', verbose = False, dryrun = False,
      size_conf = 0, parallel = 1, defaultDomain = []\<rparr>"

section \<open>Notions used in the properties\<close>

text \<open>
  What the callback of \<open>getActualImageUrl\<close> reads at every match of \<open>div table\<close>, in
  document order: the \<open>src\<close> of the first \<open>img\<close> below the parent of the table, and
  whether it exists.
\<close>

definition tableImages :: "node \<Rightarrow> (string \<times> bool) list" where
  "tableImages doc =
     map (\<lambda>s. Attr (Find (Parent [s]) sel_img) ''src'') (Find (document doc) sel_div_table)"

text \<open>The last value that exists, or the empty string.\<close>

definition lastFound :: "(string \<times> bool) list \<Rightarrow> string" where
  "lastFound rs = (case rev (filter snd rs) of [] \<Rightarrow> [] | r # _ \<Rightarrow> fst r)"

text \<open>
  The rule as the specification words it: the \<open>src\<close> of the image element that is a
  sibling of the first table of the document, or the empty string.
\<close>

fun siblings :: "located \<Rightarrow> selection" where
  "siblings ([], n) = []"
| "siblings (TextNode t # anc, n) = []"
| "siblings (Element t as ks # anc, n) =
     map (\<lambda>k. (Element t as ks # anc, k)) (filter (\<lambda>k. k \<noteq> n) ks)"

definition spec_firstTableImage :: "node \<Rightarrow> string" where
  "spec_firstTableImage doc =
     (case Find (document doc) sel_div_table of
        [] \<Rightarrow> []
      | s # _ \<Rightarrow> fst (Attr (filter (matchSel sel_img) (siblings s)) ''src''))"

text \<open>
  A download goroutine is in flight from its start until it has received from
  \<open>semaphore\<close>; it is downloading while it runs \<open>downloadImage\<close>. The sink holds a token
  between its send on \<open>semaphore\<close> and the \<open>go\<close> statement.
\<close>

fun active :: "task \<Rightarrow> bool" where
  "active T_Done = False"
| "active t = True"

fun isDownload :: "task \<Rightarrow> bool" where
  "isDownload (T_Download u) = True"
| "isDownload t = False"

definition inflight :: "task list \<Rightarrow> nat" where
  "inflight ts = length (filter active ts)"

definition downloading :: "task list \<Rightarrow> nat" where
  "downloading ts = length (filter isDownload ts)"

fun holding :: "sink \<Rightarrow> nat" where
  "holding (S_Spawn val ss) = 1"
| "holding s = 0"

definition tokens_ok :: "conf \<Rightarrow> proc \<Rightarrow> bool" where
  "tokens_ok cfg p =
     (sem p = inflight (tasks p) + holding (sink p) \<and> int (sem p) \<le> parallel cfg)"

text \<open>The events of the walker's loop body; the sends on \<open>semaphore\<close> in a trace.\<close>

fun walkerEvent :: "event \<Rightarrow> bool" where
  "walkerEvent (E_Log s) = True"
| "walkerEvent (E_Doc u) = True"
| "walkerEvent (E_Send v) = True"
| "walkerEvent x = False"

definition acquired :: "event list \<Rightarrow> nat" where
  "acquired ev = length (filter (\<lambda>x. x = E_Acquire) ev)"

text \<open>A goroutine about to run \<open>downloadImage\<close> has an asset URL that is not empty.\<close>

fun assetKnown :: "task \<Rightarrow> bool" where
  "assetKnown (T_Download u) = (u \<noteq> [])"
| "assetKnown t = True"

definition acquire_ok :: "proc \<Rightarrow> bool" where
  "acquire_ok p =
     (acquired (trace p) = length (tasks p) + holding (sink p) \<and> list_all assetKnown (tasks p))"

text \<open>
  The lines written to standard output; the effects on the file system and the
  transfers of a download; the line \<open>printImages\<close> writes for a URL.
\<close>

fun printed :: "event list \<Rightarrow> string list" where
  "printed [] = []"
| "printed (E_Stdout s # ev) = s # printed ev"
| "printed (x # ev) = printed ev"

fun downloadEffect :: "event \<Rightarrow> bool" where
  "downloadEffect (E_MkdirAll d m) = True"
| "downloadEffect (E_Create d) = True"
| "downloadEffect (E_Get u) = True"
| "downloadEffect (E_Copy d) = True"
| "downloadEffect (E_Sync d) = True"
| "downloadEffect x = False"

definition line :: "string \<Rightarrow> string" where
  "line u = u @ [CHR 0x0A]"

text \<open>What holds at every step of a dry run.\<close>

definition dry_ok :: "proc \<Rightarrow> bool" where
  "dry_ok p =
     (tasks p = []
      \<and> list_all (\<lambda>x. \<not> downloadEffect x) (trace p)
      \<and> printed (trace p) @ map line (queue p) = map line (sent (trace p))
      \<and> (sink p = S_Recv \<or> sink p = S_Done)
      \<and> (closed p \<longrightarrow> walker p = W_Done)
      \<and> (sink p = S_Done \<longrightarrow> closed p \<and> queue p = [])
      \<and> walker p \<noteq> W_Exit 0
      \<and> (status p = Some 0 \<longrightarrow> sink p = S_Done))"



text \<open>The receives from \<open>semaphore\<close> in a trace.\<close>

definition released :: "event list \<Rightarrow> nat" where
  "released ev = length (filter (\<lambda>x. x = E_Release) ev)"

definition release_ok :: "proc \<Rightarrow> bool" where
  "release_ok p = (released (trace p) + inflight (tasks p) = length (tasks p))"

text \<open>
  How the walker goroutine ends for an outcome of \<open>fetchAllImageUrls\<close>: where it
  stands, whether it has closed the stream, and the effect of the close.
\<close>

fun walkerAfter :: "unit outcome \<Rightarrow> walker" where
  "walkerAfter (Returns r) = W_Done"
| "walkerAfter (Exits c) = W_Exit c"

fun closeAfter :: "unit outcome \<Rightarrow> event list" where
  "closeAfter (Returns r) = [E_Close]"
| "closeAfter (Exits c) = []"

fun returned :: "unit outcome \<Rightarrow> bool" where
  "returned (Returns r) = True"
| "returned (Exits c) = False"

section \<open>Properties of the program\<close>

subsection \<open>The asset resolver\<close>

lemma fold_imageOfTable:
  "fold imageOfTable ss img =
     (case rev (filter snd (map (\<lambda>s. Attr (Find (Parent [s]) sel_img) ''src'') ss)) of
        [] \<Rightarrow> img | r # _ \<Rightarrow> fst r)"
proof (induction ss arbitrary: img)
  case Nil
  then show ?case by simp
next
  case (Cons s ss)
  obtain val ok where a: "Attr (Find (Parent [s]) sel_img) ''src'' = (val, ok)"
    by (cases "Attr (Find (Parent [s]) sel_img) ''src''")
  show ?case
    using Cons.IH a by (cases ok) (auto simp: imageOfTable_def split: list.splits)
qed

text \<open>
  C6, as the program has it: the resolver returns the empty string when the page cannot
  be opened; otherwise it looks at every table below a \<open>div\<close>, in document order, reads
  the \<open>src\<close> of the first \<open>img\<close> below the parent of the table, and returns the last
  \<open>src\<close> it found, the empty string when it found none. With several tables the
  image of the last one is returned, not that of the first.
\<close>

theorem resolver_last_table:
  "getActualImageUrl e u =
     (case newDocument e u of
        Inl err \<Rightarrow>
          ([E_Doc u, E_Log (''Error opening document for single image: '' @ err)], Returns [])
      | Inr doc \<Rightarrow> ([E_Doc u], Returns (lastFound (tableImages doc))))"
  by (simp add: getActualImageUrl_def lastFound_def tableImages_def fold_imageOfTable
      split: sum.splits)

text \<open>
  C6 as stated fails on a page with two tables, each beside an image: the image beside
  the first table is \<open>a.jpg\<close>, the resolver returns \<open>b.jpg\<close>.
\<close>

theorem resolver_first_table_counterexample:
  "newDocument ex_env ''http://nagi.ee/big?size=o'' = Inr ex_detail
   \<and> spec_firstTableImage ex_detail = ''http://nagi.ee/f/a.jpg''
   \<and> snd (getActualImageUrl ex_env ''http://nagi.ee/big?size=o'') = Returns ''http://nagi.ee/f/b.jpg''"
  by code_simp

text \<open>
  C7: the resolver always returns to its caller. When the detail page cannot be opened
  it logs the error and returns the empty string; when the page has no table below a
  \<open>div\<close> with an image that has a \<open>src\<close>, it returns the empty string as well. The
  step of the download goroutine that resolves an asset never ends the process.
\<close>

theorem resolver_never_exits:
  "(\<exists>ev v. getActualImageUrl e u = (ev, Returns v))
   \<and> (\<forall>err. newDocument e u = Inl err \<longrightarrow>
         getActualImageUrl e u =
           ([E_Doc u, E_Log (''Error opening document for single image: '' @ err)], Returns []))
   \<and> (\<forall>doc. newDocument e u = Inr doc \<and> filter snd (tableImages doc) = [] \<longrightarrow>
         getActualImageUrl e u = ([E_Doc u], Returns []))
   \<and> status (downloadActualImage_step e cfg p i (T_Resolve u)) = status p"
  by (auto simp: getActualImageUrl_def tableImages_def fold_imageOfTable split: sum.splits)

theorem resolver_never_exits_witness:
  "newDocument ex_env ''http://nagi.ee/missing'' = Inl ''404 Not Found''
   \<and> getActualImageUrl ex_env ''http://nagi.ee/missing'' =
       ([E_Doc ''http://nagi.ee/missing'',
         E_Log ''Error opening document for single image: 404 Not Found''], Returns [])
   \<and> newDocument ex_env ''http://nagi.ee/none?size=o'' = Inr ex_detail_none
   \<and> filter snd (tableImages ex_detail_none) = []
   \<and> getActualImageUrl ex_env ''http://nagi.ee/none?size=o''
       = ([E_Doc ''http://nagi.ee/none?size=o''], Returns [])"
proof -
  have h: "newDocument ex_env ''http://nagi.ee/missing'' = Inl ''404 Not Found''"
    by (simp add: ex_env_def ex_site_def)
  have k: "newDocument ex_env ''http://nagi.ee/none?size=o'' = Inr ex_detail_none"
    by (simp add: ex_env_def ex_site_def)
  have n: "filter snd (tableImages ex_detail_none) = []"
    by code_simp
  from resolver_never_exits [of ex_env "''http://nagi.ee/missing''"]
    resolver_never_exits [of ex_env "''http://nagi.ee/none?size=o''"] h k n
  show ?thesis by simp
qed

subsection \<open>Links without an address\<close>

text \<open>
  C3 at a listing whose second item link has no \<open>href\<close>: with \<open>verbose\<close> set the
  callback calls \<open>log.Fatal\<close> and the process exits with status 1 after the first item;
  without \<open>verbose\<close> the link is skipped and the items after it are sent.
\<close>

theorem item_link_without_href_exits:
  "extractImageUrls (ex_args\<lparr>verbose := True\<rparr>) ex_listing_nohref =
     ([E_Send ''http://nagi.ee/item1'', E_Log ''Href not found''], Exits 1)
   \<and> fetchAllImageUrls ex_env (ex_args\<lparr>verbose := True\<rparr>) ''http://nagi.ee/broken'' =
       Some ([E_Log ''Fetching links from http://nagi.ee/broken'', E_Doc ''http://nagi.ee/broken'',
              E_Send ''http://nagi.ee/item1'', E_Log ''Href not found''], Exits 1)
   \<and> extractImageUrls ex_args ex_listing_nohref =
       ([E_Send ''http://nagi.ee/item1'', E_Send ''http://nagi.ee/item2''], Returns ())"
  by code_simp

text \<open>
  C10 at a listing whose next-page link has no \<open>href\<close>: the program logs
  \<open>Invalid pager link\<close> and still takes the base domain as the next URL, so the walker
  goes on to \<open>http://nagi.ee\<close>.
\<close>

theorem pager_without_href_continues:
  "extractNextUrl (initDefaults ex_args) ex_listing_nopager =
     ([E_Log ''Invalid pager link''], ''http://nagi.ee'')
   \<and> snd (walkPage ex_env (initDefaults ex_args) ''http://nagi.ee/last'') = Next ''http://nagi.ee''"
  by code_simp

subsection \<open>The effects of the walker\<close>

lemma each_events: "list_all walkerEvent (fst (extractImageUrls_each cfg ss))"
  by (induction ss) (auto split: prod.splits)

lemma pager_events:
  "list_all walkerEvent (fst st) \<Longrightarrow> list_all walkerEvent (fst (fold (nextOfPager cfg) ss st))"
proof (induction ss arbitrary: st)
  case Nil
  then show ?case by simp
next
  case (Cons s ss)
  have "list_all walkerEvent (fst (nextOfPager cfg s st))"
    using Cons.prems by (auto simp: nextOfPager_def split: prod.splits)
  then show ?case using Cons.IH by simp
qed

lemma walkPage_events: "list_all walkerEvent (fst (walkPage e cfg u))"
proof (cases "newDocument e u")
  case (Inl err)
  then show ?thesis by (simp add: walkPage_def Let_def)
next
  case (Inr doc)
  obtain ev1 out where x: "extractImageUrls cfg doc = (ev1, out)"
    by (cases "extractImageUrls cfg doc")
  obtain ev2 nextUrl where n: "extractNextUrl cfg doc = (ev2, nextUrl)"
    by (cases "extractNextUrl cfg doc")
  have a: "list_all walkerEvent ev1"
    using each_events [of cfg "Find (document doc) sel_item_links"] x
    by (simp add: extractImageUrls_def)
  have b: "list_all walkerEvent ev2"
    using pager_events [of "([], [])" cfg "Find (document doc) sel_pager"] n
    by (simp add: extractNextUrl_def)
  from Inr x n a b show ?thesis
    by (cases out) (simp_all add: walkPage_def Let_def)
qed

lemma each_exit: "snd (extractImageUrls_each cfg ss) = Exits c \<Longrightarrow> c = 1"
  by (induction ss) (auto split: prod.splits if_splits)


lemma walkPage_abort: "snd (walkPage e cfg u) = Abort c \<Longrightarrow> c = 1"
proof (cases "newDocument e u")
  case (Inl err)
  assume "snd (walkPage e cfg u) = Abort c"
  with Inl show ?thesis by (simp add: walkPage_def Let_def)
next
  case (Inr doc)
  assume a: "snd (walkPage e cfg u) = Abort c"
  obtain ev1 out where x: "extractImageUrls cfg doc = (ev1, out)"
    by (cases "extractImageUrls cfg doc")
  show ?thesis
  proof (cases out)
    case (Returns r)
    with a Inr x show ?thesis
      by (simp add: walkPage_def Let_def split: prod.splits if_splits)
  next
    case (Exits n)
    with x have "snd (extractImageUrls_each cfg (Find (document doc) sel_item_links)) = Exits n"
      by (simp add: extractImageUrls_def)
    then have "n = 1" by (rule each_exit)
    with a Inr x Exits show ?thesis by (simp add: walkPage_def Let_def)
  qed
qed

subsection \<open>Steps and executions\<close>

lemma pick_kinds:
  obtains "k = 0" | "k = Suc 0" | "k = Suc (Suc 0)" | i where "k = Suc (Suc (Suc i))"
proof (cases k)
  case 0
  then show ?thesis using that by simp
next
  case (Suc a)
  note ka = this
  show ?thesis
  proof (cases a)
    case 0
    with ka show ?thesis using that by simp
  next
    case (Suc b)
    with ka show ?thesis using that by (cases b) simp_all
  qed
qed

lemma main_cases:
  obtains (dry) "dryrun args" "main e args sched = exec e (initDefaults args) sched (startDownloads (initDefaults args) [])"
  | (nodir) ev c where "\<not> dryrun args" "createDestinationDir e (initDefaults args) = (ev, Exits c)"
      "main e args sched = (startDownloads (initDefaults args) ev)\<lparr>status := Some c\<rparr>"
  | (run) ev where "\<not> dryrun args" "createDestinationDir e (initDefaults args) = (ev, Returns ())"
      "main e args sched = exec e (initDefaults args) sched (startDownloads (initDefaults args) ev)"
proof (cases "dryrun args")
  case True
  then show ?thesis using dry by (simp add: main_def Let_def initDefaults_def)
next
  case False
  obtain ev out where c: "createDestinationDir e (initDefaults args) = (ev, out)"
    by (cases "createDestinationDir e (initDefaults args)")
  show ?thesis
  proof (cases out)
    case (Returns u)
    with False c show ?thesis using run [of ev] by (simp add: main_def Let_def initDefaults_def)
  next
    case (Exits n)
    with False c show ?thesis using nodir [of ev n] by (simp add: main_def Let_def initDefaults_def)
  qed
qed

lemma walker_trace: "\<exists>ev. trace (fetchAllImageUrls_step e cfg p w) = trace p @ ev"
  by (cases w) (auto split: prod.splits turn.splits)

lemma printer_trace: "\<exists>ev. trace (printImages_step p s) = trace p @ ev"
  by (cases s) (auto split: list.splits)

lemma sink_trace: "\<exists>ev. trace (downloadImages_step e cfg p s) = trace p @ ev"
proof (cases s)
  case (S_Each ss)
  then show ?thesis by (cases ss) (auto split: prod.splits)
qed (auto split: list.splits sum.splits)

lemma task_trace: "\<exists>ev. trace (downloadActualImage_step e cfg p i t) = trace p @ ev"
  by (cases t) (auto split: prod.splits outcome.splits nat.splits)

lemma step_trace: "\<exists>ev. trace (step e cfg k p) = trace p @ ev"
proof (cases "status p")
  case (Some c)
  then show ?thesis by (simp add: step_def)
next
  case None
  then show ?thesis
    using walker_trace [of e cfg p "walker p"] printer_trace [of p "sink p"]
      sink_trace [of e cfg p "sink p"] task_trace [of e cfg p]
    by (cases k rule: pick_kinds) (auto simp: step_def)
qed

lemma exec_trace: "\<exists>ev. trace (exec e cfg sched p) = trace p @ ev"
proof (induction sched arbitrary: p)
  case Nil
  then show ?case by (simp add: exec_def)
next
  case (Cons k sched)
  obtain ev1 where a: "trace (step e cfg k p) = trace p @ ev1"
    using step_trace by blast
  obtain ev2 where b: "trace (exec e cfg sched (step e cfg k p)) = trace (step e cfg k p) @ ev2"
    using Cons.IH by blast
  from a b show ?case by (simp add: exec_def)
qed

lemma exec_snoc: "exec e cfg (sched @ [k]) p = step e cfg k (exec e cfg sched p)"
  by (simp add: exec_def)

lemma exec_Cons: "exec e cfg (k # sched) p = exec e cfg sched (step e cfg k p)"
  by (simp add: exec_def)

lemma exec_append: "exec e cfg (s1 @ s2) p = exec e cfg s2 (exec e cfg s1 p)"
  by (simp add: exec_def)

subsection \<open>The tokens in the channel\<close>

lemma inflight_append [simp]: "inflight (ts @ us) = inflight ts + inflight us"
  by (simp add: inflight_def)

lemma inflight_update:
  "i < length ts \<Longrightarrow>
     inflight (ts[i := t]) + (if active (ts ! i) then 1 else 0)
       = inflight ts + (if active t then 1 else 0)"
proof (induction ts arbitrary: i)
  case Nil
  then show ?case by simp
next
  case (Cons a ts)
  show ?case
  proof (cases i)
    case 0
    then show ?thesis by (simp add: inflight_def)
  next
    case (Suc j)
    with Cons.prems have "j < length ts" by simp
    from Cons.IH [OF this] Suc show ?thesis by (simp add: inflight_def)
  qed
qed

lemma walker_keeps:
  "sem (fetchAllImageUrls_step e cfg p w) = sem p
   \<and> tasks (fetchAllImageUrls_step e cfg p w) = tasks p
   \<and> sink (fetchAllImageUrls_step e cfg p w) = sink p"
  by (cases w) (auto split: prod.splits turn.splits)

lemma printer_keeps:
  "sem (printImages_step p (sink p)) = sem p \<and> tasks (printImages_step p (sink p)) = tasks p
   \<and> holding (sink (printImages_step p (sink p))) = holding (sink p)"
  by (cases "sink p") (auto split: list.splits)

lemma sink_tokens:
  assumes "0 < parallel cfg" "tokens_ok cfg p"
  shows "tokens_ok cfg (downloadImages_step e cfg p (sink p))"
proof (cases "sink p")
  case S_Recv
  with assms show ?thesis by (auto simp: tokens_ok_def split: list.splits sum.splits)
next
  case (S_Each ss)
  show ?thesis
  proof (cases ss)
    case Nil
    with S_Each assms show ?thesis by (simp add: tokens_ok_def)
  next
    case (Cons s ss')
    with S_Each assms show ?thesis by (auto simp: tokens_ok_def split: prod.splits)
  qed
next
  case (S_Spawn val ss)
  with assms show ?thesis by (simp add: tokens_ok_def inflight_def)
next
  case S_Done
  with assms show ?thesis by simp
qed

lemma task_tokens:
  assumes "0 < parallel cfg" "tokens_ok cfg p" "i < length (tasks p)"
  shows "tokens_ok cfg (downloadActualImage_step e cfg p i (tasks p ! i))"
proof (cases "tasks p ! i")
  case (T_Resolve u)
  from inflight_update [OF assms(3), of "T_Download x" for x] inflight_update [OF assms(3), of T_Release] T_Resolve assms(2)
  show ?thesis
    by (auto simp: tokens_ok_def getActualImageUrl_def split: sum.splits)
next
  case (T_Download u)
  from inflight_update [OF assms(3), of T_Release] T_Download assms(2)
  show ?thesis
    by (auto simp: tokens_ok_def split: prod.splits outcome.splits)
next
  case T_Release
  from inflight_update [OF assms(3), of T_Done] T_Release assms(1,2)
  show ?thesis
    by (auto simp: tokens_ok_def split: nat.splits)
next
  case T_Done
  with assms show ?thesis by simp
qed

lemma step_tokens:
  assumes "0 < parallel cfg" "tokens_ok cfg p"
  shows "tokens_ok cfg (step e cfg k p)"
proof (cases "status p")
  case (Some c)
  with assms show ?thesis by (simp add: step_def)
next
  case None
  show ?thesis
  proof (cases k rule: pick_kinds)
    case 1
    with None assms show ?thesis by (simp add: step_def tokens_ok_def)
  next
    case 2
    with None assms walker_keeps [of e cfg p "walker p"] show ?thesis
      by (simp add: step_def tokens_ok_def)
  next
    case 3
    with None assms printer_keeps [of p] sink_tokens [OF assms, of e] show ?thesis
      by (simp add: step_def tokens_ok_def)
  next
    case (4 i)
    with None assms task_tokens [OF assms, of i e] show ?thesis
      by (simp add: step_def)
  qed
qed

lemma exec_tokens:
  "0 < parallel cfg \<Longrightarrow> tokens_ok cfg p \<Longrightarrow> tokens_ok cfg (exec e cfg sched p)"
  unfolding exec_def
  by (induction sched arbitrary: p) (simp_all add: step_tokens)

lemma start_tokens: "0 < parallel cfg \<Longrightarrow> tokens_ok cfg (startDownloads cfg ev)"
  by (simp add: startDownloads_def tokens_ok_def inflight_def)

lemma main_tokens:
  assumes "0 < parallel args"
  shows "tokens_ok (initDefaults args) (main e args sched)"
proof -
  have pos: "0 < parallel (initDefaults args)" using assms by (simp add: initDefaults_def)
  show ?thesis
  proof (cases rule: main_cases [of args e sched])
    case dry
    then show ?thesis using exec_tokens [OF pos start_tokens [OF pos]] by simp
  next
    case (nodir ev c)
    then show ?thesis using start_tokens [OF pos, of ev] by (simp add: tokens_ok_def)
  next
    case (run ev)
    then show ?thesis using exec_tokens [OF pos start_tokens [OF pos]] by simp
  qed
qed

lemma downloading_le_inflight: "downloading ts \<le> inflight ts"
proof (induction ts)
  case Nil
  then show ?case by (simp add: downloading_def inflight_def)
next
  case (Cons t ts)
  then show ?case by (cases t) (simp_all add: downloading_def inflight_def)
qed

subsection \<open>The sends on the channel\<close>

lemma acquired_append [simp]: "acquired (xs @ ys) = acquired xs + acquired ys"
  by (simp add: acquired_def)

lemma acquired_walker: "list_all walkerEvent ev \<Longrightarrow> acquired ev = 0"
proof (induction ev)
  case Nil
  then show ?case by (simp add: acquired_def)
next
  case (Cons x ev)
  then show ?case by (cases x) (simp_all add: acquired_def)
qed

lemma acquired_resolve: "acquired (fst (getActualImageUrl e u)) = 0"
  by (simp add: getActualImageUrl_def acquired_def split: sum.splits)

lemma acquired_download: "acquired (fst (downloadImage e cfg u)) = 0"
  by (simp add: downloadImage_def Let_def acquired_def split: sum.splits)

lemma list_all_update: "list_all P xs \<Longrightarrow> P v \<Longrightarrow> list_all P (xs[i := v])"
  by (induction xs arbitrary: i) (auto split: nat.splits)

lemma walker_acquire: "acquire_ok p \<Longrightarrow> acquire_ok (fetchAllImageUrls_step e cfg p w)"
proof (cases w)
  case (W_At u)
  assume a: "acquire_ok p"
  have z: "acquired (fst (walkPage e cfg u)) = 0"
    by (rule acquired_walker [OF walkPage_events])
  obtain ev t where w: "walkPage e cfg u = (ev, t)" by (cases "walkPage e cfg u")
  with z have "acquired ev = 0" by simp
  with a w W_At show ?thesis
    by (cases t) (auto simp: acquire_ok_def acquired_def)
qed (auto simp: acquire_ok_def)

lemma printer_acquire: "acquire_ok p \<Longrightarrow> acquire_ok (printImages_step p (sink p))"
  by (cases "sink p") (auto simp: acquire_ok_def acquired_def split: list.splits)

lemma sink_acquire:
  assumes "0 < parallel cfg" "acquire_ok p"
  shows "acquire_ok (downloadImages_step e cfg p (sink p))"
proof (cases "sink p")
  case S_Recv
  with assms show ?thesis
    by (auto simp: acquire_ok_def acquired_def split: list.splits sum.splits)
next
  case (S_Each ss)
  show ?thesis
  proof (cases ss)
    case Nil
    with S_Each assms show ?thesis by (simp add: acquire_ok_def)
  next
    case (Cons s ss')
    with S_Each assms show ?thesis
      by (auto simp: acquire_ok_def acquired_def split: prod.splits)
  qed
next
  case (S_Spawn val ss)
  with assms show ?thesis by (simp add: acquire_ok_def acquired_def)
next
  case S_Done
  with assms show ?thesis by simp
qed

lemma task_acquire:
  assumes "acquire_ok p"
  shows "acquire_ok (downloadActualImage_step e cfg p i t)"
proof (cases t)
  case (T_Resolve u)
  obtain ev out where r: "getActualImageUrl e u = (ev, out)" by (cases "getActualImageUrl e u")
  with acquired_resolve [of e u] have z: "acquired ev = 0" by simp
  from assms have l: "list_all assetKnown (tasks p)" by (simp add: acquire_ok_def)
  show ?thesis
  proof (cases out)
    case (Returns imageUrl)
    have "list_all assetKnown ((tasks p)[i := (if imageUrl \<noteq> [] then T_Download imageUrl else T_Release)])"
      by (rule list_all_update [OF l]) simp
    with assms r z T_Resolve Returns show ?thesis by (simp add: acquire_ok_def)
  next
    case (Exits c)
    with assms r z T_Resolve show ?thesis by (simp add: acquire_ok_def)
  qed
next
  case (T_Download u)
  obtain ev out where r: "downloadImage e cfg u = (ev, out)" by (cases "downloadImage e cfg u")
  with acquired_download [of e cfg u] have z: "acquired ev = 0" by simp
  from assms have l: "list_all assetKnown (tasks p)" by (simp add: acquire_ok_def)
  have "list_all assetKnown ((tasks p)[i := T_Release])"
    by (rule list_all_update [OF l]) simp
  with assms r z T_Download show ?thesis by (cases out) (simp_all add: acquire_ok_def)
next
  case T_Release
  from assms have l: "list_all assetKnown (tasks p)" by (simp add: acquire_ok_def)
  have "list_all assetKnown ((tasks p)[i := T_Done])"
    by (rule list_all_update [OF l]) simp
  with assms T_Release show ?thesis
    by (auto simp: acquire_ok_def acquired_def split: nat.splits)
next
  case T_Done
  with assms show ?thesis by simp
qed

lemma step_acquire:
  assumes "0 < parallel cfg" "acquire_ok p"
  shows "acquire_ok (step e cfg k p)"
proof (cases "status p")
  case (Some c)
  with assms show ?thesis by (simp add: step_def)
next
  case None
  show ?thesis
  proof (cases k rule: pick_kinds)
    case 1
    with None assms show ?thesis by (simp add: step_def acquire_ok_def)
  next
    case 2
    with None walker_acquire [OF assms(2)] show ?thesis by (simp add: step_def)
  next
    case 3
    with None printer_acquire [OF assms(2)] sink_acquire [OF assms] show ?thesis
      by (simp add: step_def)
  next
    case (4 i)
    with None assms task_acquire [OF assms(2)] show ?thesis by (simp add: step_def)
  qed
qed

lemma exec_acquire:
  "0 < parallel cfg \<Longrightarrow> acquire_ok p \<Longrightarrow> acquire_ok (exec e cfg sched p)"
  unfolding exec_def
  by (induction sched arbitrary: p) (simp_all add: step_acquire)

lemma start_acquire: "acquired ev = 0 \<Longrightarrow> acquire_ok (startDownloads cfg ev)"
  by (simp add: startDownloads_def acquire_ok_def)

lemma acquired_mkdir: "acquired (fst (createDestinationDir e cfg)) = 0"
  by (simp add: createDestinationDir_def acquired_def split: sum.splits)

lemma main_acquire:
  assumes "0 < parallel args"
  shows "acquire_ok (main e args sched)"
proof -
  have pos: "0 < parallel (initDefaults args)" using assms by (simp add: initDefaults_def)
  have nil: "acquired [] = 0" by (simp add: acquired_def)
  show ?thesis
  proof (cases rule: main_cases [of args e sched])
    case dry
    then show ?thesis using exec_acquire [OF pos start_acquire [OF nil]] by simp
  next
    case (nodir ev c)
    with acquired_mkdir [of e "initDefaults args"] have "acquired ev = 0" by simp
    from start_acquire [OF this] nodir show ?thesis by (simp add: acquire_ok_def)
  next
    case (run ev)
    with acquired_mkdir [of e "initDefaults args"] have "acquired ev = 0" by simp
    from exec_acquire [OF pos start_acquire [OF this]] run show ?thesis by simp
  qed
qed

subsection \<open>The receives from the channel\<close>

lemma released_append [simp]: "released (xs @ ys) = released xs + released ys"
  by (simp add: released_def)

lemma released_walker: "list_all walkerEvent ev \<Longrightarrow> released ev = 0"
proof (induction ev)
  case Nil
  then show ?case by (simp add: released_def)
next
  case (Cons x ev)
  then show ?case by (cases x) (simp_all add: released_def)
qed

lemma released_resolve: "released (fst (getActualImageUrl e u)) = 0"
  by (simp add: getActualImageUrl_def released_def split: sum.splits)

lemma released_download: "released (fst (downloadImage e cfg u)) = 0"
  by (simp add: downloadImage_def Let_def released_def split: sum.splits)

lemma walker_release: "release_ok p \<Longrightarrow> release_ok (fetchAllImageUrls_step e cfg p w)"
proof (cases w)
  case (W_At u)
  assume a: "release_ok p"
  have z: "released (fst (walkPage e cfg u)) = 0"
    by (rule released_walker [OF walkPage_events])
  obtain ev t where w: "walkPage e cfg u = (ev, t)" by (cases "walkPage e cfg u")
  with z have "released ev = 0" by simp
  with a w W_At show ?thesis
    by (cases t) (auto simp: release_ok_def released_def)
qed (auto simp: release_ok_def)

lemma printer_release: "release_ok p \<Longrightarrow> release_ok (printImages_step p s)"
  by (cases s) (auto simp: release_ok_def released_def split: list.splits)

lemma sink_release: "release_ok p \<Longrightarrow> release_ok (downloadImages_step e cfg p s)"
proof (cases s)
  case (S_Each ss)
  assume "release_ok p"
  with S_Each show ?thesis
    by (cases ss) (auto simp: release_ok_def released_def split: prod.splits)
next
  case (S_Spawn val ss)
  assume "release_ok p"
  with S_Spawn show ?thesis by (simp add: release_ok_def released_def inflight_def)
qed (auto simp: release_ok_def released_def split: list.splits sum.splits)

lemma task_release:
  assumes "0 < parallel cfg" "release_ok p" "i < length (tasks p)"
  shows "release_ok (downloadActualImage_step e cfg p i (tasks p ! i))"
proof (cases "tasks p ! i")
  case (T_Resolve u)
  obtain ev out where r: "getActualImageUrl e u = (ev, out)" by (cases "getActualImageUrl e u")
  with released_resolve [of e u] have z: "released ev = 0" by simp
  from inflight_update [OF assms(3), of "T_Download x" for x]
    inflight_update [OF assms(3), of T_Release] T_Resolve assms(2) r z
  show ?thesis by (cases out) (auto simp: release_ok_def)
next
  case (T_Download u)
  obtain ev out where r: "downloadImage e cfg u = (ev, out)" by (cases "downloadImage e cfg u")
  with released_download [of e cfg u] have z: "released ev = 0" by simp
  from inflight_update [OF assms(3), of T_Release] T_Download assms(2) r z
  show ?thesis by (cases out) (auto simp: release_ok_def)
next
  case T_Release
  from inflight_update [OF assms(3), of T_Done] T_Release assms(1,2)
  show ?thesis by (auto simp: release_ok_def released_def split: nat.splits)
next
  case T_Done
  with assms show ?thesis by simp
qed

lemma step_release:
  assumes "0 < parallel cfg" "release_ok p"
  shows "release_ok (step e cfg k p)"
proof (cases "status p")
  case (Some c)
  with assms show ?thesis by (simp add: step_def)
next
  case None
  show ?thesis
  proof (cases k rule: pick_kinds)
    case 1
    with None assms show ?thesis by (simp add: step_def release_ok_def)
  next
    case 2
    with None walker_release [OF assms(2)] show ?thesis by (simp add: step_def)
  next
    case 3
    with None printer_release [OF assms(2)] sink_release [OF assms(2)] show ?thesis
      by (simp add: step_def)
  next
    case (4 i)
    with None assms task_release [OF assms, of i e] show ?thesis by (simp add: step_def)
  qed
qed

lemma exec_release:
  "0 < parallel cfg \<Longrightarrow> release_ok p \<Longrightarrow> release_ok (exec e cfg sched p)"
  unfolding exec_def
  by (induction sched arbitrary: p) (simp_all add: step_release)

lemma start_release: "released ev = 0 \<Longrightarrow> release_ok (startDownloads cfg ev)"
  by (simp add: startDownloads_def release_ok_def inflight_def)

lemma released_mkdir: "released (fst (createDestinationDir e cfg)) = 0"
  by (simp add: createDestinationDir_def released_def split: sum.splits)

lemma main_release:
  assumes "0 < parallel args"
  shows "release_ok (main e args sched)"
proof -
  have pos: "0 < parallel (initDefaults args)" using assms by (simp add: initDefaults_def)
  have nil: "released [] = 0" by (simp add: released_def)
  show ?thesis
  proof (cases rule: main_cases [of args e sched])
    case dry
    then show ?thesis using exec_release [OF pos start_release [OF nil]] by simp
  next
    case (nodir ev c)
    with released_mkdir [of e "initDefaults args"] have "released ev = 0" by simp
    from start_release [OF this] nodir show ?thesis by (simp add: release_ok_def)
  next
    case (run ev)
    with released_mkdir [of e "initDefaults args"] have "released ev = 0" by simp
    from exec_release [OF pos start_release [OF this]] run show ?thesis by simp
  qed
qed

subsection \<open>Bounded downloads\<close>

text \<open>
  C1: with \<open>config.parallel = N > 0\<close>, after any number of steps under any schedule, at
  most \<open>N\<close> download goroutines are in flight, so at most \<open>N\<close> are downloading. The
  tokens in the channel, never more than its capacity \<open>N\<close>, are those of the goroutines
  in flight and the one the sink holds between its send on the channel and the \<open>go\<close>
  statement: every goroutine is started after a send on the channel (the sends are as
  many as the goroutines started, plus the one the sink holds), and every goroutine that
  has finished has received from the channel once (the receives are as many as the
  goroutines no longer in flight).
\<close>

theorem downloads_bounded:
  assumes "0 < parallel args"
  shows "int (inflight (tasks (main e args sched))) \<le> parallel args
         \<and> int (downloading (tasks (main e args sched))) \<le> parallel args
         \<and> int (sem (main e args sched)) \<le> parallel args
         \<and> sem (main e args sched)
             = inflight (tasks (main e args sched)) + holding (sink (main e args sched))
         \<and> acquired (trace (main e args sched))
             = length (tasks (main e args sched)) + holding (sink (main e args sched))
         \<and> released (trace (main e args sched)) + inflight (tasks (main e args sched))
             = length (tasks (main e args sched))"
proof -
  have t: "tokens_ok (initDefaults args) (main e args sched)"
    using assms by (rule main_tokens)
  have a: "acquire_ok (main e args sched)" using assms by (rule main_acquire)
  have r: "release_ok (main e args sched)" using assms by (rule main_release)
  have d: "downloading (tasks (main e args sched)) \<le> inflight (tasks (main e args sched))"
    by (rule downloading_le_inflight)
  from t a r d show ?thesis
    by (simp add: tokens_ok_def acquire_ok_def release_ok_def initDefaults_def)
qed

text \<open>
  An execution with \<open>parallel = 1\<close>: the walker has sent two items, the first download
  goroutine is in flight, and the sink is blocked at the send for the second link.
\<close>

theorem downloads_bounded_witness:
  "0 < parallel ex_args
   \<and> sink (main ex_env ex_args [1, 1, 1, 2, 2, 2, 2, 2, 2, 2])
       = S_Each [([Element ''li'' [] [Element ''a'' [(''href'', ''/none?size=o'')] []],
                   Element ''ul'' [] [Element ''li'' [] [Element ''a'' [(''href'', ''/none?size=o'')] []]],
                   Element ''div'' [(''id'', ''zoom'')]
                     [Element ''ul'' [] [Element ''li'' [] [Element ''a'' [(''href'', ''/none?size=o'')] []]]],
                   ex_item2],
                  Element ''a'' [(''href'', ''/none?size=o'')] [])]
   \<and> tasks (main ex_env ex_args [1, 1, 1, 2, 2, 2, 2, 2, 2, 2]) = [T_Resolve ''http://nagi.ee/big?size=o'']
   \<and> int (inflight (tasks (main ex_env ex_args [1, 1, 1, 2, 2, 2, 2, 2, 2, 2]))) \<le> parallel ex_args"
proof -
  have h: "0 < parallel ex_args" by (simp add: ex_args_def)
  have s: "sink (main ex_env ex_args [1, 1, 1, 2, 2, 2, 2, 2, 2, 2])
       = S_Each [([Element ''li'' [] [Element ''a'' [(''href'', ''/none?size=o'')] []],
                   Element ''ul'' [] [Element ''li'' [] [Element ''a'' [(''href'', ''/none?size=o'')] []]],
                   Element ''div'' [(''id'', ''zoom'')]
                     [Element ''ul'' [] [Element ''li'' [] [Element ''a'' [(''href'', ''/none?size=o'')] []]]],
                   ex_item2],
                  Element ''a'' [(''href'', ''/none?size=o'')] [])]"
    by code_simp
  have t: "tasks (main ex_env ex_args [1, 1, 1, 2, 2, 2, 2, 2, 2, 2]) = [T_Resolve ''http://nagi.ee/big?size=o'']"
    by code_simp
  from downloads_bounded [OF h, of ex_env "[1, 1, 1, 2, 2, 2, 2, 2, 2, 2]"] h s t
  show ?thesis by simp
qed

subsection \<open>Tokens and the resolution of assets\<close>

text \<open>
  C5, as the program has it: with \<open>config.parallel > 0\<close> the sink sends on
  \<open>semaphore\<close> for every link it keeps, before the \<open>go\<close> statement and so before the
  asset is resolved, which the new goroutine does: at every step the sends on the channel
  are as many as the goroutines started plus the one the sink is about to start. The
  goroutine runs \<open>downloadImage\<close> only with a resolved asset that is not empty, and it
  holds its token until it receives from the channel, also when the asset is empty.
\<close>

theorem token_before_resolution:
  assumes "0 < parallel args"
  shows "acquired (trace (main e args sched))
           = length (tasks (main e args sched)) + holding (sink (main e args sched))
         \<and> list_all assetKnown (tasks (main e args sched))
         \<and> sem (main e args sched)
             = inflight (tasks (main e args sched)) + holding (sink (main e args sched))"
proof -
  have a: "acquire_ok (main e args sched)" using assms by (rule main_acquire)
  have t: "tokens_ok (initDefaults args) (main e args sched)" using assms by (rule main_tokens)
  from a t show ?thesis by (simp add: acquire_ok_def tokens_ok_def)
qed

theorem token_before_resolution_witness:
  "0 < parallel (ex_args\<lparr>url := ''http://nagi.ee/l2''\<rparr>)
   \<and> tasks (main ex_env (ex_args\<lparr>url := ''http://nagi.ee/l2''\<rparr>) [1, 2, 2, 2, 3]) = [T_Release]
   \<and> acquired (trace (main ex_env (ex_args\<lparr>url := ''http://nagi.ee/l2''\<rparr>) [1, 2, 2, 2, 3])) = 1
   \<and> sem (main ex_env (ex_args\<lparr>url := ''http://nagi.ee/l2''\<rparr>) [1, 2, 2, 2, 3]) = 1"
proof -
  have h: "0 < parallel (ex_args\<lparr>url := ''http://nagi.ee/l2''\<rparr>)"
    by (simp add: ex_args_def)
  have t: "tasks (main ex_env (ex_args\<lparr>url := ''http://nagi.ee/l2''\<rparr>) [1, 2, 2, 2, 3]) = [T_Release]"
    by code_simp
  have s: "sink (main ex_env (ex_args\<lparr>url := ''http://nagi.ee/l2''\<rparr>) [1, 2, 2, 2, 3]) = S_Each []"
    by code_simp
  from token_before_resolution [OF h, of ex_env "[1, 2, 2, 2, 3]"] h t s
  show ?thesis by (simp add: inflight_def)
qed

text \<open>
  C5 as stated fails on an item whose detail page has no image: the token is taken
  before the goroutine is started, the asset then resolves to the empty string, and the
  token is still held.
\<close>

theorem token_for_empty_asset_counterexample:
  "snd (getActualImageUrl ex_env ''http://nagi.ee/none?size=o'') = Returns []
   \<and> trace (main ex_env (ex_args\<lparr>url := ''http://nagi.ee/l2''\<rparr>) [1, 2, 2, 2, 3])
       = [E_MkdirAll ''out'' 480, E_Doc ''http://nagi.ee/l2'', E_Send ''http://nagi.ee/item2'',
          E_Doc ''http://nagi.ee/item2'', E_Acquire, E_Spawn ''http://nagi.ee/none?size=o'',
          E_Doc ''http://nagi.ee/none?size=o'']
   \<and> tasks (main ex_env (ex_args\<lparr>url := ''http://nagi.ee/l2''\<rparr>) [1, 2, 2, 2, 3]) = [T_Release]
   \<and> sem (main ex_env (ex_args\<lparr>url := ''http://nagi.ee/l2''\<rparr>) [1, 2, 2, 2, 3]) = 1"
  by code_simp

subsection \<open>The destination directory\<close>

text \<open>
  C8, as the program has it: without \<open>dry-run\<close> the first effect of the program is
  \<open>os.MkdirAll(config.directory, 0740)\<close>, before any goroutine runs, so before any
  download; when it fails the program logs the error and exits with status 1. The mode
  \<open>0740\<close> gives the owner read, write and execute, the group read only, and others
  nothing.
\<close>

theorem directory_created_first:
  assumes "\<not> dryrun args"
  shows "(\<exists>rest. trace (main e args sched) = E_MkdirAll (directory args) dirMode # rest)
         \<and> (\<forall>err. mkdirAll e (directory args) dirMode = Inl err \<longrightarrow>
               trace (main e args sched) = [E_MkdirAll (directory args) dirMode, E_Log err]
               \<and> status (main e args sched) = Some 1)
         \<and> dirMode AND 448 = 448 \<and> dirMode AND 56 = 32 \<and> dirMode AND 7 = 0"
proof -
  have bits: "dirMode AND 448 = 448 \<and> dirMode AND 56 = 32 \<and> dirMode AND 7 = 0"
    by (simp add: dirMode_def)
  have dir: "directory (initDefaults args) = directory args" by (simp add: initDefaults_def)
  show ?thesis
  proof (cases rule: main_cases [of args e sched])
    case dry
    with assms show ?thesis by simp
  next
    case (nodir ev c)
    then show ?thesis using bits dir
      by (auto simp: createDestinationDir_def startDownloads_def split: sum.splits)
  next
    case (run ev)
    obtain ev' where "trace (main e args sched) = ev @ ev'"
      using run(3) exec_trace [of e "initDefaults args" sched "startDownloads (initDefaults args) ev"]
      by (auto simp: startDownloads_def)
    with run show ?thesis using bits dir
      by (auto simp: createDestinationDir_def split: sum.splits)
  qed
qed

theorem directory_created_first_witness:
  "\<not> dryrun ex_args
   \<and> (\<exists>rest. trace (main ex_env ex_args [1, 2, 2, 2, 3, 3]) = E_MkdirAll ''out'' dirMode # rest)"
proof -
  have h: "\<not> dryrun ex_args" by (simp add: ex_args_def)
  from directory_created_first [OF h, of ex_env "[1, 2, 2, 2, 3, 3]"] h
  show ?thesis by (simp add: ex_args_def)
qed

text \<open>
  C8 as stated fails: the mode the program passes is \<open>0740\<close> (480), not \<open>0750\<close> (488);
  the execute bit of the group (8) is not set.
\<close>

theorem directory_mode_counterexample:
  "\<not> dryrun ex_args
   \<and> trace (main ex_env ex_args []) = [E_MkdirAll ''out'' 480]
   \<and> (480 :: 32 word) AND 8 = 0 \<and> (480 :: 32 word) \<noteq> 488"
  by code_simp

subsection \<open>Failures of a download\<close>

text \<open>
  C2, as the program has it: \<open>downloadImage\<close> ends the process exactly when
  \<open>os.Create\<close> fails. That failure is logged by \<open>log.Fatal\<close>: the process exits with
  status 1 and the token of the goroutine is not released. When the file is created,
  \<open>downloadImage\<close> returns whatever the request, the copy and the sync do, each of
  their failures is logged, and the goroutine goes on to receive from \<open>semaphore\<close>,
  which releases its token.
\<close>

theorem download_failures:
  "snd (downloadImage e cfg u) =
     (case osCreate e (destinationOf e (directory cfg) u) of
        Inl err \<Rightarrow> Exits 1 | Inr ok \<Rightarrow> Returns ())
   \<and> (\<forall>err. osCreate e (destinationOf e (directory cfg) u) = Inl err \<longrightarrow>
         E_Log err \<in> set (fst (downloadImage e cfg u))
         \<and> status (downloadActualImage_step e cfg p i (T_Download u)) = Some 1
         \<and> sem (downloadActualImage_step e cfg p i (T_Download u)) = sem p)
   \<and> (osCreate e (destinationOf e (directory cfg) u) = Inr () \<longrightarrow>
         status (downloadActualImage_step e cfg p i (T_Download u)) = status p
         \<and> tasks (downloadActualImage_step e cfg p i (T_Download u)) = (tasks p)[i := T_Release]
         \<and> (\<forall>err. httpGet e u = Inl err \<longrightarrow>
               E_Log (''Error in HTTP GET: '' @ err) \<in> set (fst (downloadImage e cfg u)))
         \<and> (\<forall>body err. httpGet e u = Inr body
                 \<and> ioCopy e (destinationOf e (directory cfg) u) body = Inl err \<longrightarrow>
               E_Log (''Error in image download: '' @ err) \<in> set (fst (downloadImage e cfg u)))
         \<and> (\<forall>body err. httpGet e u = Inr body
                 \<and> fileSync e (destinationOf e (directory cfg) u) = Inl err \<longrightarrow>
               E_Log (''Error in image save: '' @ err) \<in> set (fst (downloadImage e cfg u))))
   \<and> (0 < parallel cfg \<and> 0 < sem p \<longrightarrow>
         sem (downloadActualImage_step e cfg p i T_Release) = sem p - 1
         \<and> tasks (downloadActualImage_step e cfg p i T_Release) = (tasks p)[i := T_Done])"
proof -
  let ?d = "destinationOf e (directory cfg) u"
  show ?thesis
  proof (cases "osCreate e ?d")
    case (Inl err)
    then show ?thesis
      by (auto simp: downloadImage_def Let_def split: nat.splits)
  next
    case (Inr ok)
    then show ?thesis
      by (auto simp: downloadImage_def Let_def split: sum.splits nat.splits)
  qed
qed

theorem download_failures_witness:
  "osCreate ex_env_readonly (destinationOf ex_env_readonly (directory ex_args) ''http://nagi.ee/f/b.jpg'')
     = Inl ''permission denied''
   \<and> E_Log ''permission denied'' \<in> set (fst (downloadImage ex_env_readonly ex_args ''http://nagi.ee/f/b.jpg''))
   \<and> snd (downloadImage ex_env_readonly ex_args ''http://nagi.ee/f/b.jpg'') = Exits 1
   \<and> snd (downloadImage ex_env ex_args ''http://nagi.ee/f/b.jpg'') = Returns ()"
proof -
  have h: "osCreate ex_env_readonly (destinationOf ex_env_readonly (directory ex_args) ''http://nagi.ee/f/b.jpg'')
     = Inl ''permission denied''"
    by (simp add: ex_env_readonly_def)
  have k: "osCreate ex_env (destinationOf ex_env (directory ex_args) ''http://nagi.ee/f/b.jpg'') = Inr ()"
    by (simp add: ex_env_def)
  from download_failures [of ex_env_readonly ex_args "''http://nagi.ee/f/b.jpg''"]
    download_failures [of ex_env ex_args "''http://nagi.ee/f/b.jpg''"] h k
  show ?thesis by simp
qed

text \<open>
  C2 as stated fails on a file system that refuses to create the file: the process
  exits with status 1 while the token is still taken, and nothing runs afterwards.
\<close>

theorem create_failure_counterexample:
  "snd (getActualImageUrl ex_env_readonly ''http://nagi.ee/big?size=o'') = Returns ''http://nagi.ee/f/b.jpg''
   \<and> snd (downloadImage ex_env_readonly (initDefaults ex_args) ''http://nagi.ee/f/b.jpg'') = Exits 1
   \<and> status (main ex_env_readonly ex_args [1, 2, 2, 2, 3, 3]) = Some 1
   \<and> sem (main ex_env_readonly ex_args [1, 2, 2, 2, 3, 3]) = 1
   \<and> main ex_env_readonly ex_args [1, 2, 2, 2, 3, 3, 3, 1, 2, 0] = main ex_env_readonly ex_args [1, 2, 2, 2, 3, 3]"
  by code_simp

subsection \<open>The dry run\<close>

lemma sent_append [simp]: "sent (xs @ ys) = sent xs @ sent ys"
  by (induction xs rule: sent.induct) simp_all

lemma printed_append [simp]: "printed (xs @ ys) = printed xs @ printed ys"
  by (induction xs rule: printed.induct) simp_all

lemma printed_walker: "list_all walkerEvent ev \<Longrightarrow> printed ev = []"
proof (induction ev)
  case Nil
  then show ?case by simp
next
  case (Cons x ev)
  then show ?case by (cases x) simp_all
qed

lemma harmless_walker:
  "list_all walkerEvent ev \<Longrightarrow> list_all (\<lambda>x. \<not> downloadEffect x) ev"
proof (induction ev)
  case Nil
  then show ?case by simp
next
  case (Cons x ev)
  then show ?case by (cases x) simp_all
qed

lemma walker_dry:
  assumes "dry_ok p"
  shows "dry_ok (fetchAllImageUrls_step e cfg p (walker p))"
proof (cases "walker p")
  case (W_At u)
  from assms W_At have open_: "\<not> closed p" "sink p = S_Recv"
    by (auto simp: dry_ok_def)
  show ?thesis
  proof (cases "u = []")
    case True
    with assms W_At open_ show ?thesis by (simp add: dry_ok_def)
  next
    case False
    obtain ev t where w: "walkPage e cfg u = (ev, t)" by (cases "walkPage e cfg u")
    have k: "list_all walkerEvent ev" using walkPage_events [of e cfg u] w by simp
    note p = printed_walker [OF k] and h = harmless_walker [OF k]
    show ?thesis
    proof (cases t)
      case (Abort c)
      with w walkPage_abort [of e cfg u c] have "c = 1" by simp
      with assms W_At False w Abort p h open_ show ?thesis by (simp add: dry_ok_def)
    next
      case Break
      with assms W_At False w p h open_ show ?thesis by (simp add: dry_ok_def)
    next
      case (Next n)
      with assms W_At False w p h open_ show ?thesis by (simp add: dry_ok_def)
    qed
  qed
next
  case (W_Exit c)
  with assms show ?thesis by (auto simp: dry_ok_def)
next
  case W_Done
  with assms show ?thesis by simp
qed

lemma printer_dry:
  assumes "dry_ok p"
  shows "dry_ok (printImages_step p (sink p))"
proof (cases "sink p")
  case S_Recv
  show ?thesis
  proof (cases "queue p")
    case Nil
    with assms S_Recv show ?thesis by (simp add: dry_ok_def)
  next
    case (Cons u us)
    with assms S_Recv show ?thesis by (simp add: dry_ok_def line_def)
  qed
qed (use assms in simp_all)

lemma step_dry:
  assumes "dryrun cfg" "dry_ok p"
  shows "dry_ok (step e cfg k p)"
proof (cases "status p")
  case (Some c)
  with assms show ?thesis by (simp add: step_def)
next
  case None
  show ?thesis
  proof (cases k rule: pick_kinds)
    case 1
    with None assms show ?thesis by (auto simp: step_def dry_ok_def allDone_def)
  next
    case 2
    with None walker_dry [OF assms(2)] show ?thesis by (simp add: step_def)
  next
    case 3
    with None assms(1) printer_dry [OF assms(2)] show ?thesis by (simp add: step_def)
  next
    case (4 i)
    with None assms show ?thesis by (simp add: step_def dry_ok_def)
  qed
qed

lemma exec_dry: "dryrun cfg \<Longrightarrow> dry_ok p \<Longrightarrow> dry_ok (exec e cfg sched p)"
  unfolding exec_def
  by (induction sched arbitrary: p) (simp_all add: step_dry)

text \<open>
  The walker goroutine, run on its own, does what the loop of \<open>fetchAllImageUrls\<close>
  does: when the loop halts, so many steps of the goroutine send the same items and
  leave the same effects.
\<close>

lemma walkLoop_exec:
  assumes "walkLoop e0 cfg0 u0 acc0 = Some y0"
  shows "\<exists>n ev'. fst y0 = acc0 @ ev'
           \<and> (\<forall>p. walker p = W_At u0 \<and> status p = None \<and> \<not> closed p \<longrightarrow>
                 exec e0 cfg0 (replicate n (Suc 0)) p
                   = p\<lparr>walker := walkerAfter (snd y0), queue := queue p @ sent ev',
                       closed := returned (snd y0),
                       trace := trace p @ ev' @ closeAfter (snd y0)\<rparr>)"
proof (rule walkLoop.raw_induct [where P = "\<lambda>e cfg u acc y. \<exists>n ev'. fst y = acc @ ev'
           \<and> (\<forall>p. walker p = W_At u \<and> status p = None \<and> \<not> closed p \<longrightarrow>
                 exec e cfg (replicate n (Suc 0)) p
                   = p\<lparr>walker := walkerAfter (snd y), queue := queue p @ sent ev',
                       closed := returned (snd y),
                       trace := trace p @ ev' @ closeAfter (snd y)\<rparr>)", OF _ assms], goal_cases)
  case (1 walkLoop' e cfg u acc y)
  show ?case
  proof (cases "u = []")
    case True
    with 1(2) have y: "y = (acc, Returns ())" by simp
    have "\<forall>p. walker p = W_At u \<and> status p = None \<and> \<not> closed p \<longrightarrow>
            exec e cfg (replicate (Suc 0) (Suc 0)) p
              = p\<lparr>walker := walkerAfter (snd y), queue := queue p @ sent [],
                  closed := returned (snd y), trace := trace p @ [] @ closeAfter (snd y)\<rparr>"
      using True y by (auto simp: exec_def step_def)
    with y show ?thesis by (metis append_Nil2 fst_conv)
  next
    case False
    obtain ev t where w: "walkPage e cfg u = (ev, t)" by (cases "walkPage e cfg u")
    show ?thesis
    proof (cases t)
      case (Abort c)
      with 1(2) False w have y: "y = (acc @ ev, Exits c)" by simp
      have "\<forall>p. walker p = W_At u \<and> status p = None \<and> \<not> closed p \<longrightarrow>
            exec e cfg (replicate (Suc 0) (Suc 0)) p
              = p\<lparr>walker := walkerAfter (snd y), queue := queue p @ sent ev,
                  closed := returned (snd y), trace := trace p @ ev @ closeAfter (snd y)\<rparr>"
        using False y w Abort by (auto simp: exec_def step_def)
      with y show ?thesis by (metis fst_conv)
    next
      case Break
      with 1(2) False w have y: "y = (acc @ ev, Returns ())" by simp
      have "\<forall>p. walker p = W_At u \<and> status p = None \<and> \<not> closed p \<longrightarrow>
            exec e cfg (replicate (Suc 0) (Suc 0)) p
              = p\<lparr>walker := walkerAfter (snd y), queue := queue p @ sent ev,
                  closed := returned (snd y), trace := trace p @ ev @ closeAfter (snd y)\<rparr>"
        using False y w Break by (auto simp: exec_def step_def)
      with y show ?thesis by (metis fst_conv)
    next
      case (Next v)
      with 1(2) False w have r: "walkLoop' e cfg v (acc @ ev) = Some y" by simp
      from 1(1) [OF r] obtain n ev' where
        f: "fst y = (acc @ ev) @ ev'" and
        x: "\<forall>p. walker p = W_At v \<and> status p = None \<and> \<not> closed p \<longrightarrow>
              exec e cfg (replicate n (Suc 0)) p
                = p\<lparr>walker := walkerAfter (snd y), queue := queue p @ sent ev',
                    closed := returned (snd y), trace := trace p @ ev' @ closeAfter (snd y)\<rparr>"
        by blast
      have "exec e cfg (replicate (Suc n) (Suc 0)) p
              = p\<lparr>walker := walkerAfter (snd y), queue := queue p @ sent (ev @ ev'),
                  closed := returned (snd y), trace := trace p @ (ev @ ev') @ closeAfter (snd y)\<rparr>"
        if h: "walker p = W_At u \<and> status p = None \<and> \<not> closed p" for p
      proof -
        let ?p1 = "p\<lparr>walker := W_At v, queue := queue p @ sent ev, trace := trace p @ ev\<rparr>"
        have s: "step e cfg (Suc 0) p = ?p1"
          using h False w Next by (simp add: step_def)
        have "walker ?p1 = W_At v \<and> status ?p1 = None \<and> \<not> closed ?p1" using h by simp
        with x have "exec e cfg (replicate n (Suc 0)) ?p1
                = ?p1\<lparr>walker := walkerAfter (snd y), queue := queue ?p1 @ sent ev',
                    closed := returned (snd y), trace := trace ?p1 @ ev' @ closeAfter (snd y)\<rparr>"
          by blast
        with s show ?thesis by (simp add: exec_Cons)
      qed
      with f show ?thesis by (metis append_assoc)
    qed
  qed
qed

lemma printer_drains:
  assumes "dryrun cfg" "queue p = q" "sink p = S_Recv" "status p = None"
  shows "exec e cfg (replicate (length q) (Suc (Suc 0))) p
           = p\<lparr>queue := [], trace := trace p @ map (\<lambda>u. E_Stdout (line u)) q\<rparr>"
  using assms(2-)
proof (induction q arbitrary: p)
  case Nil
  then show ?case by (simp add: exec_def)
next
  case (Cons u us)
  let ?p1 = "p\<lparr>queue := us, trace := trace p @ [E_Stdout (line u)]\<rparr>"
  have s: "step e cfg (Suc (Suc 0)) p = ?p1"
    using Cons.prems assms(1) by (simp add: step_def line_def)
  have "exec e cfg (replicate (length us) (Suc (Suc 0))) ?p1
          = ?p1\<lparr>queue := [], trace := trace ?p1 @ map (\<lambda>u. E_Stdout (line u)) us\<rparr>"
    using Cons.prems by (intro Cons.IH) simp_all
  with s show ?case by (simp add: exec_Cons)
qed

lemma printed_lines [simp]: "printed (map (\<lambda>u. E_Stdout (line u)) q) = map line q"
  by (induction q) simp_all

lemma dry_run_completes:
  assumes "dryrun args"
    and "fetchAllImageUrls e (initDefaults args) (url args) = Some (ev, Returns ())"
  shows "\<exists>sched. status (main e args sched) = Some 0
           \<and> trace (main e args sched) = ev @ map (\<lambda>u. E_Stdout (line u)) (sent ev)"
proof -
  let ?cfg = "initDefaults args"
  let ?p0 = "startDownloads ?cfg []"
  have d: "dryrun ?cfg" using assms(1) by (simp add: initDefaults_def)
  have m: "main e args s = exec e ?cfg s ?p0" for s
    using assms(1) by (simp add: main_def Let_def initDefaults_def)
  from assms(2) obtain ev0 where w: "walkLoop e ?cfg (url args) [] = Some (ev0, Returns ())"
    and ev: "ev = ev0 @ [E_Close]"
    by (auto simp: fetchAllImageUrls_def split: option.splits prod.splits outcome.splits)
  from walkLoop_exec [OF w] obtain n where
    x: "\<forall>p. walker p = W_At (url args) \<and> status p = None \<and> \<not> closed p \<longrightarrow>
          exec e ?cfg (replicate n (Suc 0)) p
            = p\<lparr>walker := W_Done, queue := queue p @ sent ev0, closed := True,
                trace := trace p @ ev0 @ [E_Close]\<rparr>"
    by auto
  let ?p1 = "?p0\<lparr>walker := W_Done, queue := sent ev0, closed := True, trace := ev\<rparr>"
  have a: "exec e ?cfg (replicate n (Suc 0)) ?p0 = ?p1"
    using x [rule_format, of ?p0] ev by (simp add: startDownloads_def initDefaults_def)
  let ?p2 = "?p1\<lparr>queue := [], trace := ev @ map (\<lambda>u. E_Stdout (line u)) (sent ev0)\<rparr>"
  have b: "exec e ?cfg (replicate (length (sent ev0)) (Suc (Suc 0))) ?p1 = ?p2"
    using printer_drains [OF d, of ?p1 "sent ev0" e] by (simp add: startDownloads_def)
  have c: "exec e ?cfg [Suc (Suc 0), 0] ?p2 = ?p2\<lparr>sink := S_Done, status := Some 0\<rparr>"
    using d by (simp add: exec_def step_def startDownloads_def allDone_def)
  let ?sched = "replicate n (Suc 0) @ replicate (length (sent ev0)) (Suc (Suc 0)) @ [Suc (Suc 0), 0]"
  have "main e args ?sched = ?p2\<lparr>sink := S_Done, status := Some 0\<rparr>"
    by (simp only: m exec_append a b c)
  moreover have "sent ev = sent ev0" using ev by simp
  ultimately have "status (main e args ?sched) = Some 0
           \<and> trace (main e args ?sched) = ev @ map (\<lambda>u. E_Stdout (line u)) (sent ev)"
    by simp
  then show ?thesis by blast
qed

text \<open>
  C9: in dry-run mode, at every step of every execution, the program has created no
  directory and no file and made no download transfer, and has started no download
  goroutine; the lines written to standard output are the item URLs received from the
  stream, each followed by a newline, in the order they were sent (the URLs sent are
  those printed and those still waiting in the stream). The program exits with status 0
  only when the stream is closed and empty, so when every URL sent has been printed; and
  once the walker and the sink have returned, the main goroutine exits with status 0.
  When \<open>fetchAllImageUrls\<close> returns, there is such a run to the end: its effects are
  those of the walker and one line for every item URL the walker extracted, in their
  order, and its exit status is 0.
\<close>

theorem dry_run_reports:
  assumes "dryrun args"
  shows "list_all (\<lambda>x. \<not> downloadEffect x) (trace (main e args sched))
         \<and> tasks (main e args sched) = []
         \<and> printed (trace (main e args sched)) @ map line (queue (main e args sched))
             = map line (sent (trace (main e args sched)))
         \<and> (status (main e args sched) = Some 0 \<longrightarrow>
               closed (main e args sched) \<and> queue (main e args sched) = []
               \<and> printed (trace (main e args sched)) = map line (sent (trace (main e args sched))))
         \<and> (status (main e args sched) = None \<and> walker (main e args sched) = W_Done
               \<and> sink (main e args sched) = S_Done \<longrightarrow>
               status (main e args (sched @ [0])) = Some 0)
         \<and> (\<forall>ev. fetchAllImageUrls e (initDefaults args) (url args) = Some (ev, Returns ()) \<longrightarrow>
               (\<exists>full. status (main e args full) = Some 0
                  \<and> trace (main e args full) = ev @ map (\<lambda>u. E_Stdout (line u)) (sent ev)))"
proof -
  let ?cfg = "initDefaults args"
  have d: "dryrun ?cfg" using assms by (simp add: initDefaults_def)
  have m: "main e args s = exec e ?cfg s (startDownloads ?cfg [])" for s
    using assms by (simp add: main_def Let_def initDefaults_def)
  have "dry_ok (startDownloads ?cfg [])" by (simp add: startDownloads_def dry_ok_def)
  from exec_dry [OF d this] have ok: "dry_ok (main e args sched)" by (simp add: m)
  have last: "status (main e args (sched @ [0])) = Some 0"
    if "status (main e args sched) = None" "walker (main e args sched) = W_Done"
       "sink (main e args sched) = S_Done"
    using that ok by (simp add: m exec_snoc step_def allDone_def dry_ok_def)
  have full: "\<exists>full. status (main e args full) = Some 0
                  \<and> trace (main e args full) = ev @ map (\<lambda>u. E_Stdout (line u)) (sent ev)"
    if "fetchAllImageUrls e (initDefaults args) (url args) = Some (ev, Returns ())" for ev
    using dry_run_completes [OF assms that] .
  from ok last full show ?thesis by (auto simp: dry_ok_def)
qed

theorem dry_run_reports_witness:
  "dryrun (ex_args\<lparr>dryrun := True\<rparr>)
   \<and> status (main ex_env (ex_args\<lparr>dryrun := True\<rparr>) [1, 2, 1, 1, 2, 2, 0]) = Some 0
   \<and> sent (trace (main ex_env (ex_args\<lparr>dryrun := True\<rparr>) [1, 2, 1, 1, 2, 2, 0]))
       = [''http://nagi.ee/item1'', ''http://nagi.ee/item2'']
   \<and> printed (trace (main ex_env (ex_args\<lparr>dryrun := True\<rparr>) [1, 2, 1, 1, 2, 2, 0]))
       = [line ''http://nagi.ee/item1'', line ''http://nagi.ee/item2'']
   \<and> list_all (\<lambda>x. \<not> downloadEffect x)
         (trace (main ex_env (ex_args\<lparr>dryrun := True\<rparr>) [1, 2, 1, 1, 2, 2, 0]))"
proof -
  have h: "dryrun (ex_args\<lparr>dryrun := True\<rparr>)" by simp
  have st: "status (main ex_env (ex_args\<lparr>dryrun := True\<rparr>) [1, 2, 1, 1, 2, 2, 0]) = Some 0"
    by code_simp
  have sn: "sent (trace (main ex_env (ex_args\<lparr>dryrun := True\<rparr>) [1, 2, 1, 1, 2, 2, 0]))
       = [''http://nagi.ee/item1'', ''http://nagi.ee/item2'']"
    by code_simp
  from dry_run_reports [OF h, of ex_env "[1, 2, 1, 1, 2, 2, 0]"] h st sn
  show ?thesis by simp
qed

subsection \<open>Termination of the walker\<close>






end
